theory Spec2Isabelle
  imports Main
begin

section \<open>JavaScript primitives used by the collaboration engine\<close>

text \<open>
  Numbers are modelled as unbounded integers: positions, lengths and versions of the
  engine are integral, and the precision limit of a double far exceeds any document.
  Strings are lists of code units.

  \<^verbatim>\<open>slice\<close> of strings and arrays resolves each index relative to the length:
  a negative index counts from the end, and every index is clipped into
  \<open>[0, length]\<close>. An empty result is returned when the start is not before the end.
\<close>

definition relative_index :: "nat \<Rightarrow> int \<Rightarrow> nat" where
  "relative_index len i =
     (if i < 0 then nat (max (int len + i) 0) else nat (min i (int len)))"

definition slice :: "'a list \<Rightarrow> int \<Rightarrow> int \<Rightarrow> 'a list" where
  "slice s start fin =
     (let from = relative_index (length s) start;
          to = relative_index (length s) fin
      in take (to - from) (drop from s))"

definition slice_from :: "'a list \<Rightarrow> int \<Rightarrow> 'a list" where
  "slice_from s start = drop (relative_index (length s) start) s"

section \<open>Operation model\<close>

text \<open>
  \<^verbatim>\<open>OperationType = "insert" | "delete" | "retain"\<close>. The switch in
  \<^verbatim>\<open>applyOperation\<close> has a \<^verbatim>\<open>default\<close> branch for any other value that
  arrives over the wire; \<open>Unrecognized\<close> stands for those.
\<close>

datatype OperationType = Insert | Delete | Retain | Unrecognized

text \<open>
  \<^verbatim>\<open>interface TextOperation { type; position; text?; length? }\<close>.
  The two optional fields are options. The fields \<^verbatim>\<open>type\<close>, \<^verbatim>\<open>text\<close> and
  \<^verbatim>\<open>length\<close> carry the suffix \<open>_op\<close>.
\<close>

record TextOperation =
  type_op :: OperationType
  position :: int
  text_op :: "string option"
  length_op :: "int option"

text \<open>\<^verbatim>\<open>op.text || ""\<close>\<close>

definition text_or_empty :: "TextOperation \<Rightarrow> string" where
  "text_or_empty op = (case text_op op of None \<Rightarrow> [] | Some t \<Rightarrow> t)"

text \<open>\<^verbatim>\<open>op.length || 0\<close>\<close>

definition length_or_zero :: "TextOperation \<Rightarrow> int" where
  "length_or_zero op = (case length_op op of None \<Rightarrow> 0 | Some n \<Rightarrow> n)"

text \<open>\<^verbatim>\<open>op.text?.length || 0\<close>\<close>

definition text_length :: "TextOperation \<Rightarrow> int" where
  "text_length op = (case text_op op of None \<Rightarrow> 0 | Some t \<Rightarrow> int (length t))"

text \<open>
  \<^verbatim>\<open>applyOperation(content, op)\<close>: the insert branch clamps an out-of-range
  position explicitly; the delete branch clips only the end of the range and hands the
  start to \<^verbatim>\<open>slice\<close> as it is.
\<close>

definition applyOperation :: "string \<Rightarrow> TextOperation \<Rightarrow> string" where
  "applyOperation str op =
     (case type_op op of
        Insert \<Rightarrow>
          if position op < 0 \<or> position op > int (length str) then
            let pos = max 0 (min (position op) (int (length str)))
            in slice str 0 pos @ text_or_empty op @ slice_from str pos
          else slice str 0 (position op) @ text_or_empty op @ slice_from str (position op)
      | Delete \<Rightarrow>
          let deleteEnd = min (position op + length_or_zero op) (int (length str))
          in slice str 0 (position op) @ slice_from str deleteEnd
      | Retain \<Rightarrow> str
      | Unrecognized \<Rightarrow> str)"

text \<open>The loop of \<^verbatim>\<open>applyOperations\<close> over the operations of one batch, left to right.\<close>

fun applyOperationList :: "string \<Rightarrow> TextOperation list \<Rightarrow> string" where
  "applyOperationList str [] = str"
| "applyOperationList str (op # ops) = applyOperationList (applyOperation str op) ops"

section \<open>Transform algebra\<close>

text \<open>The literal \<^verbatim>\<open>{ type: "retain", position: 0, length: 0 }\<close>.\<close>

definition retain_noop :: TextOperation where
  "retain_noop = \<lparr>type_op = Retain, position = 0, text_op = None, length_op = Some 0\<rparr>"

text \<open>
  \<^verbatim>\<open>transformOperation(opA, opB)\<close>: the four tests on the pair of types in the
  order of the source, each with its own chain of comparisons; any other pair returns
  \<open>opA\<close>.
\<close>

definition transformOperation :: "TextOperation \<Rightarrow> TextOperation \<Rightarrow> TextOperation" where
  "transformOperation opA opB =
     (if type_op opA = Insert \<and> type_op opB = Insert then
        (if position opA \<le> position opB then opA
         else opA\<lparr>position := position opA + text_length opB\<rparr>)
      else if type_op opA = Insert \<and> type_op opB = Delete then
        (if position opA \<le> position opB then opA
         else if position opA \<ge> position opB + length_or_zero opB then
           opA\<lparr>position := position opA - length_or_zero opB\<rparr>
         else opA\<lparr>position := position opB\<rparr>)
      else if type_op opA = Delete \<and> type_op opB = Insert then
        (if position opA \<ge> position opB then
           opA\<lparr>position := position opA + text_length opB\<rparr>
         else if position opA + length_or_zero opA \<le> position opB then opA
         else opA\<lparr>length_op := Some (length_or_zero opA + text_length opB)\<rparr>)
      else if type_op opA = Delete \<and> type_op opB = Delete then
        (let aEnd = position opA + length_or_zero opA;
             bEnd = position opB + length_or_zero opB
         in if aEnd \<le> position opB then opA
            else if position opA \<ge> bEnd then
              opA\<lparr>position := position opA - length_or_zero opB\<rparr>
            else
              (let overlapStart = max (position opA) (position opB);
                   overlapEnd = min aEnd bEnd;
                   overlapLen = overlapEnd - overlapStart;
                   newPos = min (position opA) (position opB);
                   newLen = length_or_zero opA - overlapLen
               in if newLen \<le> 0 then retain_noop
                  else opA\<lparr>position := newPos, length_op := Some newLen\<rparr>))
      else opA)"

text \<open>
  \<^verbatim>\<open>transformDocumentOperation(opsA, opsB)\<close>: for each \<open>opB\<close> in order, every
  element of the running list is transformed against it.
\<close>

fun transformDocumentOperation ::
  "TextOperation list \<Rightarrow> TextOperation list \<Rightarrow> TextOperation list" where
  "transformDocumentOperation opsA [] = opsA"
| "transformDocumentOperation opsA (opB # opsB) =
     transformDocumentOperation (map (\<lambda>opA. transformOperation opA opB) opsA) opsB"


section \<open>Document sequencer\<close>

text \<open>
  \<^verbatim>\<open>interface DocumentOperation { id; documentId; userId; version; operations; timestamp }\<close>.
  The fields \<^verbatim>\<open>id\<close> and \<^verbatim>\<open>version\<close> carry the suffix \<open>_doc\<close>. On a submitted
  operation \<open>version_doc\<close> is the base version of its author; on an entry of the history
  it is the version the server stamped on it.
\<close>

record DocumentOperation =
  id_doc :: string
  documentId :: string
  userId :: string
  version_doc :: int
  operations :: "TextOperation list"
  timestamp :: int

text \<open>\<^verbatim>\<open>applyOperations(content, docOp)\<close>\<close>

definition applyOperations :: "string \<Rightarrow> DocumentOperation \<Rightarrow> string" where
  "applyOperations str docOp = applyOperationList str (operations docOp)"

text \<open>
  \<^verbatim>\<open>class ServerDocumentState\<close>. The private map \<^verbatim>\<open>pendingOps\<close> is created empty
  and no method reads or writes it; it is kept as an association list.
\<close>

record ServerDocumentState =
  content :: string
  version :: int
  pendingOps :: "(string \<times> DocumentOperation) list"
  history :: "DocumentOperation list"

text \<open>The constructor \<^verbatim>\<open>new ServerDocumentState(content, version)\<close>.\<close>

definition new_ServerDocumentState :: "string \<Rightarrow> int \<Rightarrow> ServerDocumentState" where
  "new_ServerDocumentState c v = \<lparr>content = c, version = v, pendingOps = [], history = []\<rparr>"

text \<open>The value \<^verbatim>\<open>{ transformed, newContent, newVersion }\<close> returned on acceptance.\<close>

record ReceiveResult =
  transformed :: DocumentOperation
  newContent :: string
  newVersion :: int

text \<open>
  The filter of \<^verbatim>\<open>receiveOperation\<close> that selects the history entries an operation
  has missed.
\<close>

definition missedOps :: "ServerDocumentState \<Rightarrow> DocumentOperation \<Rightarrow> DocumentOperation list" where
  "missedOps st docOp =
     filter (\<lambda>h. version_doc h \<ge> version_doc docOp \<and> userId h \<noteq> userId docOp) (history st)"

text \<open>The loop \<^verbatim>\<open>for (const missed of missedOps)\<close> of \<^verbatim>\<open>receiveOperation\<close>.\<close>

fun transformAgainstMissed ::
  "TextOperation list \<Rightarrow> DocumentOperation list \<Rightarrow> TextOperation list" where
  "transformAgainstMissed transformedOps [] = transformedOps"
| "transformAgainstMissed transformedOps (missed # rest) =
     transformAgainstMissed (transformDocumentOperation transformedOps (operations missed)) rest"

text \<open>
  The second half of \<^verbatim>\<open>receiveOperation\<close>, from the comment
  \<^verbatim>\<open>apply the (possibly transformed) operation\<close> on: apply, stamp, push onto the
  history, keep the last 100 entries.
\<close>

definition applyAndRecord ::
  "ServerDocumentState \<Rightarrow> DocumentOperation \<Rightarrow> ReceiveResult option \<times> ServerDocumentState" where
  "applyAndRecord st docOp =
     (let newContent = applyOperations (content st) docOp;
          newVersion = version st + 1;
          transformed = docOp\<lparr>version_doc := newVersion\<rparr>;
          pushed = history st @ [transformed]
      in (Some \<lparr>transformed = transformed, newContent = newContent, newVersion = newVersion\<rparr>,
          st\<lparr>content := newContent, version := newVersion,
             history := (if length pushed > 100 then slice_from pushed (- 100) else pushed)\<rparr>))"

text \<open>
  \<^verbatim>\<open>receiveOperation(docOp)\<close> returns the result (\<open>None\<close> for \<^verbatim>\<open>null\<close>) and the
  state of the object after the call. The warning written to the console on the
  rejecting branch is not part of the state.
\<close>

definition receiveOperation ::
  "ServerDocumentState \<Rightarrow> DocumentOperation \<Rightarrow> ReceiveResult option \<times> ServerDocumentState" where
  "receiveOperation st docOp =
     (if version_doc docOp < version st then
        applyAndRecord st
          (docOp\<lparr>operations := transformAgainstMissed (operations docOp) (missedOps st docOp)\<rparr>)
      else if version_doc docOp > version st then (None, st)
      else applyAndRecord st docOp)"

text \<open>
  A server document receiving a sequence of operations one after the other: the results
  in order, and the state after each call is the state before the next.
\<close>

fun receiveAll ::
  "ServerDocumentState \<Rightarrow> DocumentOperation list
     \<Rightarrow> ReceiveResult option list \<times> ServerDocumentState" where
  "receiveAll st [] = ([], st)"
| "receiveAll st (docOp # rest) =
     (case receiveOperation st docOp of
        (r, st') \<Rightarrow> (case receiveAll st' rest of (rs, st'') \<Rightarrow> (r # rs, st'')))"

text \<open>The results of the accepted operations among a list of results.\<close>

fun accepted :: "ReceiveResult option list \<Rightarrow> ReceiveResult list" where
  "accepted [] = []"
| "accepted (None # rs) = accepted rs"
| "accepted (Some r # rs) = r # accepted rs"

section \<open>Presence and the two socket servers\<close>

text \<open>
  \<^verbatim>\<open>CursorPosition\<close>, \<^verbatim>\<open>SelectionRange\<close> and \<^verbatim>\<open>UserPresence\<close> of the shared
  types. The field \<^verbatim>\<open>userId\<close> of a presence carries the suffix \<open>_presence\<close>.
\<close>

record CursorPosition =
  line :: int
  ch :: int

record SelectionRange =
  anchor :: CursorPosition
  head :: CursorPosition






subsection \<open>The server that owns the sequencer (\<^verbatim>\<open>server.ts\<close>)\<close>



subsection \<open>The standalone socket server\<close>











section \<open>Vocabulary of the properties\<close>

text \<open>
  Object literals of the two editing operations, as a client builds them:
  \<^verbatim>\<open>{ type: "insert", position, text }\<close> and \<^verbatim>\<open>{ type: "delete", position, length }\<close>.
\<close>

definition insertOp :: "int \<Rightarrow> string \<Rightarrow> TextOperation" where
  "insertOp p t = \<lparr>type_op = Insert, position = p, text_op = Some t, length_op = None\<rparr>"

definition deleteOp :: "int \<Rightarrow> int \<Rightarrow> TextOperation" where
  "deleteOp p l = \<lparr>type_op = Delete, position = p, text_op = None, length_op = Some l\<rparr>"

text \<open>Splicing a list in at an offset, and cutting a range out of a list.\<close>

definition ins_at :: "nat \<Rightarrow> 'a list \<Rightarrow> 'a list \<Rightarrow> 'a list" where
  "ins_at p t s = take p s @ t @ drop p s"

definition del_at :: "nat \<Rightarrow> nat \<Rightarrow> 'a list \<Rightarrow> 'a list" where
  "del_at p l s = take p s @ drop (p + l) s"

text \<open>
  An operation is in range for a buffer when an insert points into \<open>[0, len]\<close> and a
  delete has a non-negative position and a non-negative length; its range may end, or
  even start, beyond the end of the buffer.
\<close>

definition in_range :: "string \<Rightarrow> TextOperation \<Rightarrow> bool" where
  "in_range str op =
     (case type_op op of
        Insert \<Rightarrow> 0 \<le> position op \<and> position op \<le> int (length str)
      | Delete \<Rightarrow> 0 \<le> position op \<and> 0 \<le> length_or_zero op
      | Retain \<Rightarrow> True
      | Unrecognized \<Rightarrow> True)"

text \<open>
  The two situations in which the rules of \<open>transformOperation\<close> for \<open>opA\<close> against
  \<open>opB\<close> and for \<open>opB\<close> against \<open>opA\<close> do not agree: an insert at the very position of
  another insert (each is told it goes first), and an insert strictly inside the range
  of a delete (the insert is pulled to the start of the range, while the delete is
  widened to swallow the inserted text).
\<close>

definition insert_conflict :: "TextOperation \<Rightarrow> TextOperation \<Rightarrow> bool" where
  "insert_conflict opA opB =
     (type_op opA = Insert \<and>
      (case type_op opB of
         Insert \<Rightarrow> position opA = position opB
       | Delete \<Rightarrow> position opB < position opA
                    \<and> position opA < position opB + length_or_zero opB
       | Retain \<Rightarrow> False
       | Unrecognized \<Rightarrow> False))"


text \<open>
  A submitted operation as a client builds it: its id, its author, the version the
  author believed the document was at, and its edits.
\<close>

definition clientOp :: "string \<Rightarrow> string \<Rightarrow> int \<Rightarrow> TextOperation list \<Rightarrow> DocumentOperation" where
  "clientOp opId uid base ops =
     \<lparr>id_doc = opId, documentId = ''doc'', userId = uid, version_doc = base,
      operations = ops, timestamp = 0\<rparr>"

text \<open>
  One author typing \<open>n\<close> characters at the start of the document, each keystroke
  submitted against the version the previous one produced.
\<close>

definition typing :: "nat \<Rightarrow> DocumentOperation list" where
  "typing n = map (\<lambda>i. clientOp ''k'' ''alice'' (int i) [insertOp 0 ''a'']) [0..<n]"

text \<open>A server document created empty at version 0 after 130 such keystrokes.\<close>

definition scenarioC_state :: ServerDocumentState where
  "scenarioC_state = snd (receiveAll (new_ServerDocumentState [] 0) (typing 130))"

text \<open>
  An editing session on \<open>abcdef\<close> from version 0: alice submits three operations (the
  last one a batch of two edits), bob one, each based on the version current at its
  arrival; and an operation of bob that arrives after them and is still based on
  version 2.
\<close>

definition editSession :: "DocumentOperation list" where
  "editSession =
     [clientOp ''a1'' ''alice'' 0 [insertOp 0 ''XX''],
      clientOp ''a2'' ''alice'' 1 [insertOp 0 ''Y''],
      clientOp ''b1'' ''bob'' 2 [insertOp 0 ''B''],
      clientOp ''a3'' ''alice'' 3 [insertOp 0 ''Z'', deleteOp 9 1]]"

definition lateOp :: DocumentOperation where
  "lateOp = clientOp ''b2'' ''bob'' 2 [insertOp 5 ''!'', deleteOp 7 2]"

text \<open>
  The history is ordered by version and no entry is newer than the document.
\<close>

definition history_ordered :: "ServerDocumentState \<Rightarrow> bool" where
  "history_ordered st =
     (sorted (map version_doc (history st))
      \<and> list_all (\<lambda>h. version_doc h \<le> version st) (history st))"

text \<open>
  Two deletes overlap when each starts before the other ends; the length of the overlap
  is the distance from the later start to the earlier end.
\<close>

definition ranges_overlap :: "TextOperation \<Rightarrow> TextOperation \<Rightarrow> bool" where
  "ranges_overlap opA opB =
     (position opB < position opA + length_or_zero opA
      \<and> position opA < position opB + length_or_zero opB)"

definition overlapLength :: "TextOperation \<Rightarrow> TextOperation \<Rightarrow> int" where
  "overlapLength opA opB =
     min (position opA + length_or_zero opA) (position opB + length_or_zero opB)
     - max (position opA) (position opB)"




section \<open>Facts about slicing and splicing\<close>

lemma slice_prefix: "0 \<le> p \<Longrightarrow> slice s 0 p = take (nat p) s"
  by (simp add: slice_def relative_index_def min_def)

lemma slice_from_suffix: "0 \<le> p \<Longrightarrow> slice_from s p = drop (nat p) s"
  by (simp add: slice_from_def relative_index_def min_def)

lemma apply_insert_clamped:
  "type_op op = Insert \<Longrightarrow>
   applyOperation s op = ins_at (nat (max 0 (min (position op) (int (length s))))) (text_or_empty op) s"
  by (auto simp: applyOperation_def ins_at_def slice_prefix slice_from_suffix Let_def max_def min_def)

lemma apply_delete_nonneg:
  "type_op op = Delete \<Longrightarrow> 0 \<le> position op \<Longrightarrow> 0 \<le> length_or_zero op \<Longrightarrow>
   applyOperation s op = del_at (nat (position op)) (nat (length_or_zero op)) s"
  by (auto simp: applyOperation_def del_at_def slice_prefix slice_from_suffix Let_def min_def nat_add_distrib)

lemma split3:
  assumes "p \<le> q" "q \<le> length s"
  obtains x y z where "s = x @ y @ z" "length x = p" "length y = q - p"
proof
  show "s = take p s @ take (q - p) (drop p s) @ drop q s"
    using assms by (metis append_take_drop_id drop_drop le_add_diff_inverse2)
  show "length (take p s) = p" using assms by simp
  show "length (take (q - p) (drop p s)) = q - p" using assms by simp
qed

lemma ins_ins: 
  assumes "p \<le> q" "q \<le> length s"
  shows "ins_at (q + length t) u (ins_at p t s) = ins_at p t (ins_at q u s)"
proof -
  obtain x y z where s: "s = x @ y @ z" and x: "length x = p" and y: "length y = q - p"
    using assms by (rule split3)
  have q: "q = length x + length y" using assms x y by simp
  show ?thesis unfolding s q x[symmetric] by (simp add: ins_at_def)
qed

lemma ins_del:
  assumes "p \<le> q"  "q \<le> length s"
  shows "del_at (q + length t) l (ins_at p t s) = ins_at p t (del_at q l s)"
proof -
  obtain x y z where s: "s = x @ y @ z" and x: "length x = p" and y: "length y = q - p"
    using assms by (rule split3)
  have q: "q = length x + length y" using assms x y by simp
  show ?thesis unfolding s q x[symmetric] by (simp add: ins_at_def del_at_def)
qed

lemma del_ins:
  assumes "q + l \<le> p" "p \<le> length s"
  shows "del_at q l (ins_at p t s) = ins_at (p - l) t (del_at q l s)"
proof -
  have le1: "q \<le> p" and le2: "p \<le> length s" using assms by auto
  obtain x y z where s: "s = x @ y @ z" and x: "length x = q" and y: "length y = p - q"
    using le1 le2 by (rule split3)
  have p: "p = length x + length y" using assms x y by simp
  have l: "l \<le> length y" using assms x y by simp
  show ?thesis unfolding s p x[symmetric] using l by (simp add: ins_at_def del_at_def)
qed

lemma del_del:
  assumes "p \<le> q" "q \<le> p + k" "q + m \<le> length s"
  shows "del_at p k (del_at q m s) = del_at p (k + m) s"
proof -
  have le1: "p \<le> q" and le2: "q \<le> length s" using assms by auto
  obtain x y z where s: "s = x @ y @ z" and x: "length x = p" and y: "length y = q - p"
    using le1 le2 by (rule split3)
  have q: "q = length x + length y" using assms x y by simp
  have k: "length y \<le> k" using assms x y by simp
  have m: "m \<le> length z" using assms(3) unfolding s q by simp
  show ?thesis unfolding s q x[symmetric] using k m by (simp add: del_at_def add.commute)
qed

lemma del_del_disjoint:
  assumes "p + l \<le> q" "q \<le> length s"
  shows "del_at (q - l) m (del_at p l s) = del_at p l (del_at q m s)"
proof -
  have le1: "p \<le> q" and le2: "q \<le> length s" using assms by auto
  obtain x y z where s: "s = x @ y @ z" and x: "length x = p" and y: "length y = q - p"
    using le1 le2 by (rule split3)
  have q: "q = length x + length y" using assms x y by simp
  have l: "l \<le> length y" using assms x y by simp
  show ?thesis unfolding s q x[symmetric] using l by (simp add: del_at_def)
qed

lemma length_ins_at: "length (ins_at p t s) = length s + length t"
  by (simp add: ins_at_def)

lemma length_del_at: "p + l \<le> length s \<Longrightarrow> length (del_at p l s) = length s - l"
  by (simp add: del_at_def)

lemma del_at_zero: "del_at p 0 s = s"
  by (simp add: del_at_def)

lemma del_at_beyond: "length s \<le> p \<Longrightarrow> del_at p l s = s"
  by (simp add: del_at_def)

lemma length_del_at_any: "length (del_at p l s) = min p (length s) + (length s - (p + l))"
  by (simp add: del_at_def min.commute)

lemma ins_del_unbounded:
  assumes "p \<le> q" "p \<le> length s"
  shows "del_at (q + length t) l (ins_at p t s) = ins_at p t (del_at q l s)"
proof (cases "q \<le> length s")
  case True
  with assms(1) show ?thesis by (rule ins_del)
next
  case False
  then have "del_at q l s = s" by (simp add: del_at_beyond)
  moreover have "del_at (q + length t) l (ins_at p t s) = ins_at p t s"
    using False by (simp add: del_at_beyond length_ins_at)
  ultimately show ?thesis by simp
qed

lemma del_del_unbounded:
  assumes "p \<le> q" "q \<le> p + k"
  shows "del_at p k (del_at q m s) = del_at p (k + m) s"
proof -
  consider "q + m \<le> length s" | "length s \<le> q" | "q < length s" "length s < q + m"
    by linarith
  then show ?thesis
  proof cases
    case 1
    with assms show ?thesis by (rule del_del)
  next
    case 2
    then show ?thesis using assms by (simp add: del_at_def)
  next
    case 3
    then show ?thesis using assms by (simp add: del_at_def min_def)
  qed
qed

lemma del_del_disjoint_unbounded:
  assumes "p + l \<le> q"
  shows "del_at (q - l) m (del_at p l s) = del_at p l (del_at q m s)"
proof (cases "q \<le> length s")
  case True
  with assms show ?thesis by (rule del_del_disjoint)
next
  case False
  then have "del_at q m s = s" by (simp add: del_at_beyond)
  moreover have "length (del_at p l s) \<le> q - l"
    using False assms unfolding length_del_at_any
    by (cases "p + l \<le> length s") (auto simp: min_def)
  then have "del_at (q - l) m (del_at p l s) = del_at p l s" by (rule del_at_beyond)
  ultimately show ?thesis by simp
qed

lemma del_del_int:
  assumes "0 \<le> P" "P \<le> Q" "Q \<le> P + K" "0 \<le> M"
  shows "del_at (nat P) (nat K) (del_at (nat Q) (nat M) s) = del_at (nat P) (nat (K + M)) s"
proof -
  have "nat P \<le> nat Q" "nat Q \<le> nat P + nat K"
    using assms by linarith+
  then have "del_at (nat P) (nat K) (del_at (nat Q) (nat M) s) = del_at (nat P) (nat K + nat M) s"
    by (rule del_del_unbounded)
  moreover have "nat K + nat M = nat (K + M)" using assms by linarith
  ultimately show ?thesis by simp
qed

section \<open>Facts about applying and transforming operations\<close>

lemma text_length_eq: "text_length op = int (length (text_or_empty op))"
  by (simp add: text_length_def text_or_empty_def split: option.splits)

lemma apply_insert_in_range:
  "type_op op = Insert \<Longrightarrow> 0 \<le> position op \<Longrightarrow> position op \<le> int (length s) \<Longrightarrow>
   applyOperation s op = ins_at (nat (position op)) (text_or_empty op) s"
  by (simp add: apply_insert_clamped)

lemma text_or_empty_position [simp]: "text_or_empty (op\<lparr>position := p\<rparr>) = text_or_empty op"
  by (simp add: text_or_empty_def)

lemma length_or_zero_position [simp]: "length_or_zero (op\<lparr>position := p\<rparr>) = length_or_zero op"
  by (simp add: length_or_zero_def)

lemma length_or_zero_Some [simp]: "length_or_zero (op\<lparr>length_op := Some l\<rparr>) = l"
  by (simp add: length_or_zero_def)

lemma apply_retain_noop: "applyOperation s retain_noop = s"
  by (simp add: applyOperation_def retain_noop_def)

lemma apply_delete_absent_length:
  "type_op op = Delete \<Longrightarrow> length_op op = None \<Longrightarrow> applyOperation s op = s"
  by (auto simp: applyOperation_def length_or_zero_def slice_def slice_from_def
      relative_index_def Let_def min_def max_def)

lemma apply_insert_absent_text:
  "type_op op = Insert \<Longrightarrow> text_op op = None \<Longrightarrow> applyOperation s op = s"
  by (simp add: apply_insert_clamped ins_at_def text_or_empty_def)

lemma transform_del_del_overlap:
  assumes "type_op opA = Delete" "type_op opB = Delete" "ranges_overlap opA opB"
  shows "transformOperation opA opB =
     (if length_or_zero opA - overlapLength opA opB \<le> 0 then retain_noop
      else opA\<lparr>position := min (position opA) (position opB),
               length_op := Some (length_or_zero opA - overlapLength opA opB)\<rparr>)"
  using assms by (simp add: transformOperation_def Let_def overlapLength_def ranges_overlap_def)

lemma conv_ins_ins:
  assumes A: "type_op opA = Insert" and B: "type_op opB = Insert"
    and r: "0 \<le> position opA" "position opA < position opB" "position opB \<le> int (length s)"
  shows "applyOperation (applyOperation s opA) (transformOperation opB opA)
       = applyOperation (applyOperation s opB) (transformOperation opA opB)"
proof -
  obtain p q where p: "position opA = int p" and q: "position opB = int q"
    using r by (metis nat_0_le order_trans less_imp_le)
  have pq: "p \<le> q" "q \<le> length s" using r p q by auto
  have tA: "transformOperation opA opB = opA"
    using A B r by (simp add: transformOperation_def)
  have tB: "transformOperation opB opA = opB\<lparr>position := int (q + length (text_or_empty opA))\<rparr>"
    using A B r q by (simp add: transformOperation_def text_length_eq)
  have "applyOperation (applyOperation s opA) (transformOperation opB opA)
      = ins_at (q + length (text_or_empty opA)) (text_or_empty opB) (ins_at p (text_or_empty opA) s)"
    using A B p q pq unfolding tB by (simp add: apply_insert_in_range length_ins_at nat_int_add)
  also have "\<dots> = ins_at p (text_or_empty opA) (ins_at q (text_or_empty opB) s)"
    using pq by (rule ins_ins)
  also have "\<dots> = applyOperation (applyOperation s opB) (transformOperation opA opB)"
    using A B p q pq unfolding tA by (simp add: apply_insert_in_range length_ins_at)
  finally show ?thesis .
qed

lemma conv_ins_del_before:
  assumes A: "type_op opA = Insert" and B: "type_op opB = Delete"
    and r: "0 \<le> position opA" "position opA \<le> position opB" "0 \<le> length_or_zero opB"
      "position opA \<le> int (length s)"
  shows "applyOperation (applyOperation s opA) (transformOperation opB opA)
       = applyOperation (applyOperation s opB) (transformOperation opA opB)"
proof -
  obtain p q l where p: "position opA = int p" and q: "position opB = int q"
    and l: "length_or_zero opB = int l"
    using r by (metis nat_0_le order_trans)
  have pq: "p \<le> q" "p \<le> length s" using r p q l by auto
  have pl: "p \<le> length (del_at q l s)"
    using pq unfolding length_del_at_any by (simp add: min_def)
  have tA: "transformOperation opA opB = opA"
    using A B r by (simp add: transformOperation_def)
  have tB: "transformOperation opB opA = opB\<lparr>position := int (q + length (text_or_empty opA))\<rparr>"
    using A B r q by (simp add: transformOperation_def text_length_eq)
  have "applyOperation (applyOperation s opA) (transformOperation opB opA)
      = del_at (q + length (text_or_empty opA)) l (ins_at p (text_or_empty opA) s)"
    using A B p q l pq unfolding tB by (simp add: apply_insert_in_range apply_delete_nonneg length_ins_at nat_int_add)
  also have "\<dots> = ins_at p (text_or_empty opA) (del_at q l s)"
    using pq by (rule ins_del_unbounded)
  also have "\<dots> = applyOperation (applyOperation s opB) (transformOperation opA opB)"
    using A B p q l pl unfolding tA
    by (simp add: apply_insert_in_range apply_delete_nonneg)
  finally show ?thesis .
qed

lemma conv_ins_del_after:
  assumes A: "type_op opA = Insert" and B: "type_op opB = Delete"
    and r: "0 \<le> position opB" "0 \<le> length_or_zero opB" "position opB < position opA"
      "position opB + length_or_zero opB \<le> position opA" "position opA \<le> int (length s)"
  shows "applyOperation (applyOperation s opA) (transformOperation opB opA)
       = applyOperation (applyOperation s opB) (transformOperation opA opB)"
proof -
  obtain p q l where p: "position opA = int p" and q: "position opB = int q"
    and l: "length_or_zero opB = int l"
    using r by (metis nat_0_le order_trans less_imp_le)
  have pq: "q + l \<le> p" "p \<le> length s" "q < p" using r p q l by auto
  have tA: "transformOperation opA opB = opA\<lparr>position := int (p - l)\<rparr>"
    using A B r p q l pq by (simp add: transformOperation_def)
  have tB: "transformOperation opB opA = opB"
    using A B r by (simp add: transformOperation_def)
  have "applyOperation (applyOperation s opA) (transformOperation opB opA)
      = del_at q l (ins_at p (text_or_empty opA) s)"
    using A B p q l pq unfolding tB by (simp add: apply_insert_in_range apply_delete_nonneg length_ins_at nat_int_add)
  also have "\<dots> = ins_at (p - l) (text_or_empty opA) (del_at q l s)"
    using pq by (simp add: del_ins)
  also have "\<dots> = applyOperation (applyOperation s opB) (transformOperation opA opB)"
    using A B p q l pq unfolding tA
    by (simp add: apply_insert_in_range apply_delete_nonneg length_del_at nat_diff_distrib')
  finally show ?thesis .
qed

lemma apply_transform_del_del_overlap:
  assumes A: "type_op opA = Delete" and B: "type_op opB = Delete"
    and r: "0 \<le> position opA" "0 \<le> position opB"
    and ov: "position opB < position opA + length_or_zero opA"
      "position opA < position opB + length_or_zero opB"
  shows "applyOperation s (transformOperation opA opB)
       = del_at (nat (min (position opA) (position opB)))
           (nat (length_or_zero opA
                 - (min (position opA + length_or_zero opA) (position opB + length_or_zero opB)
                    - max (position opA) (position opB)))) s"
proof (cases "length_or_zero opA
                 - (min (position opA + length_or_zero opA) (position opB + length_or_zero opB)
                    - max (position opA) (position opB)) \<le> 0")
  case True
  then have "transformOperation opA opB = retain_noop"
    using A B ov by (simp add: transformOperation_def Let_def)
  then show ?thesis using True by (simp add: apply_retain_noop del_at_zero)
next
  case False
  then have "transformOperation opA opB =
      opA\<lparr>position := min (position opA) (position opB),
          length_op := Some (length_or_zero opA
                 - (min (position opA + length_or_zero opA) (position opB + length_or_zero opB)
                    - max (position opA) (position opB)))\<rparr>"
    using A B ov by (simp add: transformOperation_def Let_def)
  then show ?thesis using False A r by (simp add: apply_delete_nonneg)
qed

lemma conv_del_del_overlap:
  assumes A: "type_op opA = Delete" and B: "type_op opB = Delete"
    and rA: "0 \<le> position opA" "0 \<le> length_or_zero opA"
    and rB: "0 \<le> position opB" "0 \<le> length_or_zero opB"
    and ov: "position opB < position opA + length_or_zero opA"
      "position opA < position opB + length_or_zero opB"
  shows "applyOperation (applyOperation s opA) (transformOperation opB opA)
       = applyOperation (applyOperation s opB) (transformOperation opA opB)"
proof -
  define a l b m where "a = position opA" and "l = length_or_zero opA"
    and "b = position opB" and "m = length_or_zero opB"
  define v where "v = min (a + l) (b + m) - max a b"
  note d = a_def[symmetric] l_def[symmetric] b_def[symmetric] m_def[symmetric]
  have f: "0 \<le> a" "0 \<le> l" "0 \<le> b" "0 \<le> m" "b < a + l" "a < b + m"
    using rA rB ov unfolding d by auto
  have "applyOperation (applyOperation s opA) (transformOperation opB opA)
      = del_at (nat (min b a)) (nat (m - (min (b + m) (a + l) - max b a))) (del_at (nat a) (nat l) s)"
    using A B rA rB ov by (simp add: apply_transform_del_del_overlap apply_delete_nonneg d)
  also have "\<dots> = del_at (nat (min a b)) (nat (m - v)) (del_at (nat a) (nat l) s)"
    by (simp add: v_def min.commute max.commute)
  also have "\<dots> = del_at (nat (min a b)) (nat ((m - v) + l)) s"
    using f by (intro del_del_int) (auto simp: v_def)
  also have "(m - v) + l = (l - v) + m" by simp
  also have "del_at (nat (min a b)) (nat ((l - v) + m)) s
      = del_at (nat (min a b)) (nat (l - v)) (del_at (nat b) (nat m) s)"
    using f by (intro del_del_int[symmetric]) (auto simp: v_def)
  also have "\<dots> = applyOperation (applyOperation s opB) (transformOperation opA opB)"
    using A B rA rB ov by (simp add: apply_transform_del_del_overlap apply_delete_nonneg d v_def)
  finally show ?thesis .
qed

lemma conv_del_del_disjoint:
  assumes A: "type_op opA = Delete" and B: "type_op opB = Delete"
    and rA: "0 \<le> position opA" "0 \<le> length_or_zero opA"
    and rB: "0 \<le> length_or_zero opB"
    and dj: "position opA + length_or_zero opA \<le> position opB"
  shows "applyOperation (applyOperation s opA) (transformOperation opB opA)
       = applyOperation (applyOperation s opB) (transformOperation opA opB)"
proof -
  obtain p l q m where p: "position opA = int p" and l: "length_or_zero opA = int l"
    and q: "position opB = int q" and m: "length_or_zero opB = int m"
    using rA rB dj by (metis nat_0_le order_trans add_nonneg_nonneg)
  have pq: "p + l \<le> q" using dj p q l m by auto
  have tA: "transformOperation opA opB = opA"
    using A B dj by (simp add: transformOperation_def)
  show ?thesis
  proof (cases "q + m \<le> p")
    case True
    then have z: "l = 0" "m = 0" "p = q" using pq by auto
    have tB: "transformOperation opB opA = opB"
      using A B p q l m z by (simp add: transformOperation_def)
    show ?thesis unfolding tA tB using A B p q l m z
      by (simp add: apply_delete_nonneg del_at_zero)
  next
    case False
    then have tB: "transformOperation opB opA = opB\<lparr>position := int (q - l)\<rparr>"
      using A B p q l m pq by (simp add: transformOperation_def)
    have "applyOperation (applyOperation s opA) (transformOperation opB opA)
        = del_at (q - l) m (del_at p l s)"
      using A B p q l m pq unfolding tB by (simp add: apply_delete_nonneg nat_diff_distrib')
    also have "\<dots> = del_at p l (del_at q m s)"
      using pq by (rule del_del_disjoint_unbounded)
    also have "\<dots> = applyOperation (applyOperation s opB) (transformOperation opA opB)"
      using A B p q l m pq unfolding tA by (simp add: apply_delete_nonneg)
    finally show ?thesis .
  qed
qed

lemma conv_passive:
  assumes "type_op opA \<noteq> Insert" "type_op opA \<noteq> Delete"
  shows "applyOperation (applyOperation s opA) (transformOperation opB opA)
       = applyOperation (applyOperation s opB) (transformOperation opA opB)"
proof -
  have "transformOperation opA opB = opA" "transformOperation opB opA = opB"
    using assms by (auto simp: transformOperation_def)
  moreover have "applyOperation t opA = t" for t
    using assms by (cases "type_op opA") (auto simp: applyOperation_def)
  ultimately show ?thesis by simp
qed


section \<open>Facts about the sequencer\<close>

lemma slice_from_last: "0 < n \<Longrightarrow> slice_from xs (- int n) = drop (length xs - n) xs"
  by (auto simp: slice_from_def relative_index_def max_def nat_diff_distrib')

lemma applyAndRecord_eq:
  "applyAndRecord st d =
     (Some \<lparr>transformed = d\<lparr>version_doc := version st + 1\<rparr>,
            newContent = applyOperationList (content st) (operations d),
            newVersion = version st + 1\<rparr>,
      st\<lparr>content := applyOperationList (content st) (operations d),
         version := version st + 1,
         history := drop (length (history st) + 1 - 100) (history st @ [d\<lparr>version_doc := version st + 1\<rparr>])\<rparr>)"
  using slice_from_last[where n=100 and xs="history st @ [d\<lparr>version_doc := version st + 1\<rparr>]"]
  by (simp add: applyAndRecord_def Let_def applyOperations_def)

lemma transformAgainstMissed_foldl:
  "transformAgainstMissed ops ms = foldl transformDocumentOperation ops (map operations ms)"
  by (induction ms arbitrary: ops) auto

lemma applyOperationList_foldl: "applyOperationList s ops = foldl applyOperation s ops"
  by (induction ops arbitrary: s) auto

lemma receiveOperation_cases:
  obtains (rejected) "version st < version_doc d" "receiveOperation st d = (None, st)"
  | (accepted) d' where "version_doc d \<le> version st" "receiveOperation st d = applyAndRecord st d'"
      "userId d' = userId d"
  by (cases "version_doc d < version st"; cases "version st < version_doc d")
     (auto simp: receiveOperation_def)

lemma receive_version_step:
  "(case receiveOperation st docOp of
      (None, st') \<Rightarrow> st' = st
    | (Some r, st') \<Rightarrow> newVersion r = version st + 1 \<and> version st' = version st + 1
                       \<and> version_doc (transformed r) = version st + 1)"
  by (rule receiveOperation_cases[where st=st and d=docOp]) (auto simp: applyAndRecord_eq)

lemma fst_receiveAll_Cons:
  "fst (receiveAll st (d # ops))
     = fst (receiveOperation st d) # fst (receiveAll (snd (receiveOperation st d)) ops)"
  by (simp split: prod.splits)

lemma snd_receiveAll_Cons:
  "snd (receiveAll st (d # ops)) = snd (receiveAll (snd (receiveOperation st d)) ops)"
  by (simp split: prod.splits)

lemma upt_shift: "map f [0..<Suc n] = f 0 # map (\<lambda>i. f (Suc i)) [0..<n]"
  by (simp add: upt_conv_Cons map_Suc_upt[symmetric] del: upt_Suc)

lemma receiveAll_versions:
  "map newVersion (accepted (fst (receiveAll st ops)))
     = map (\<lambda>i. version st + 1 + int i) [0..<length (accepted (fst (receiveAll st ops)))]
   \<and> version (snd (receiveAll st ops)) = version st + int (length (accepted (fst (receiveAll st ops))))"
proof (induction ops arbitrary: st)
  case Nil
  show ?case by simp
next
  case (Cons d ops)
  show ?case
  proof (rule receiveOperation_cases[where st=st and d=d])
    assume "receiveOperation st d = (None, st)"
    then show ?thesis using Cons[of st]
      by (simp add: fst_receiveAll_Cons snd_receiveAll_Cons del: receiveAll.simps)
  next
    fix d' assume "receiveOperation st d = applyAndRecord st d'"
    then obtain r st' where rs: "receiveOperation st d = (Some r, st')"
      and v: "version st' = version st + 1" and nv: "newVersion r = version st + 1"
      by (simp add: applyAndRecord_eq)
    show ?thesis using Cons[of st'] rs v nv
      by (simp add: fst_receiveAll_Cons snd_receiveAll_Cons upt_shift del: receiveAll.simps upt_Suc)
  qed
qed

lemma drop_last_append:
  "drop (length (drop (length xs - n) xs @ ys) - n) (drop (length xs - n) xs @ ys)
     = drop (length (xs @ ys) - n) (xs @ ys)"
  by (cases "length xs \<le> n") (auto simp: add.commute)

lemma history_applyAndRecord:
  "history (snd (applyAndRecord st d))
     = drop (length (history st @ [transformed (the (fst (applyAndRecord st d)))]) - 100)
         (history st @ [transformed (the (fst (applyAndRecord st d)))])"
  by (simp add: applyAndRecord_eq)

lemma receiveAll_history:
  "length (history st) \<le> 100 \<Longrightarrow>
   history (snd (receiveAll st ops))
     = drop (length (history st @ map transformed (accepted (fst (receiveAll st ops)))) - 100)
         (history st @ map transformed (accepted (fst (receiveAll st ops))))"
proof (induction ops arbitrary: st)
  case Nil
  then show ?case by simp
next
  case (Cons d ops)
  show ?case
  proof (rule receiveOperation_cases[where st=st and d=d])
    assume "receiveOperation st d = (None, st)"
    then show ?thesis using Cons.IH[of st] Cons.prems
      by (simp add: fst_receiveAll_Cons snd_receiveAll_Cons del: receiveAll.simps)
  next
    fix d' assume a: "receiveOperation st d = applyAndRecord st d'"
    define r where "r = the (fst (applyAndRecord st d'))"
    define st' where "st' = snd (applyAndRecord st d')"
    have rs: "receiveOperation st d = (Some r, st')"
      unfolding a r_def st'_def by (simp add: applyAndRecord_eq)
    have h: "history st' = drop (length (history st @ [transformed r]) - 100) (history st @ [transformed r])"
      unfolding st'_def r_def by (rule history_applyAndRecord)
    then have le: "length (history st') \<le> 100" by simp
    let ?c = "map transformed (accepted (fst (receiveAll st' ops)))"
    have "history (snd (receiveAll st' ops)) = drop (length (history st' @ ?c) - 100) (history st' @ ?c)"
      using le by (rule Cons.IH)
    also have "\<dots> = drop (length ((history st @ [transformed r]) @ ?c) - 100) ((history st @ [transformed r]) @ ?c)"
      unfolding h by (rule drop_last_append)
    finally show ?thesis using rs
      by (simp add: fst_receiveAll_Cons snd_receiveAll_Cons del: receiveAll.simps)
  qed
qed

lemma history_ordered_new: "history_ordered (new_ServerDocumentState c v)"
  by (simp add: history_ordered_def new_ServerDocumentState_def)

lemma history_ordered_applyAndRecord:
  assumes "history_ordered st"
  shows "history_ordered (snd (applyAndRecord st d))"
proof -
  let ?t = "d\<lparr>version_doc := version st + 1\<rparr>"
  have s: "sorted (map version_doc (history st @ [?t]))"
    using assms by (auto simp: history_ordered_def sorted_append list_all_iff)
  have a: "list_all (\<lambda>h. version_doc h \<le> version st + 1) (history st @ [?t])"
    using assms by (auto simp: history_ordered_def list_all_iff)
  have hist: "history (snd (applyAndRecord st d))
      = drop (length (history st @ [?t]) - 100) (history st @ [?t])"
    by (simp add: applyAndRecord_eq)
  have ver: "version (snd (applyAndRecord st d)) = version st + 1"
    by (simp add: applyAndRecord_eq)
  have "sorted (map version_doc (drop k (history st @ [?t])))" for k
    using s by (metis drop_map sorted_wrt_drop)
  moreover have "list_all (\<lambda>h. version_doc h \<le> version st + 1) (drop k (history st @ [?t]))" for k
    using a unfolding list_all_iff by (meson in_set_dropD)
  ultimately show ?thesis unfolding history_ordered_def hist ver by blast
qed

lemma history_ordered_receiveAll:
  "history_ordered st \<Longrightarrow> history_ordered (snd (receiveAll st ops))"
proof (induction ops arbitrary: st)
  case Nil
  then show ?case by simp
next
  case (Cons d ops)
  have "history_ordered (snd (receiveOperation st d))"
    by (rule receiveOperation_cases[where st=st and d=d])
       (use Cons.prems in \<open>auto simp: history_ordered_applyAndRecord\<close>)
  then show ?case using Cons.IH by (simp add: snd_receiveAll_Cons del: receiveAll.simps)
qed

lemma history_ordered_hd:
  assumes "history_ordered st" "h \<in> set (history st)"
  shows "version_doc (hd (history st)) \<le> version_doc h" "version_doc h \<le> version st"
proof -
  obtain x xs where hx: "history st = x # xs" using assms(2) by (cases "history st") auto
  show "version_doc (hd (history st)) \<le> version_doc h"
    using assms unfolding history_ordered_def hx by auto
  show "version_doc h \<le> version st"
    using assms unfolding history_ordered_def list_all_iff by auto
qed

lemma receive_stale_general:
  assumes "version_doc docOp < version st"
  shows "\<exists>r st'. receiveOperation st docOp = (Some r, st')
      \<and> operations (transformed r)
          = foldl transformDocumentOperation (operations docOp)
              (map operations
                 (filter (\<lambda>h. version_doc docOp \<le> version_doc h \<and> userId h \<noteq> userId docOp)
                    (history st)))
      \<and> newContent r = foldl applyOperation (content st) (operations (transformed r))
      \<and> content st' = newContent r
      \<and> newVersion r = version st + 1 \<and> version st' = version st + 1"
  using assms
  by (simp add: receiveOperation_def applyAndRecord_eq missedOps_def
        transformAgainstMissed_foldl applyOperationList_foldl)

lemma scenarioC_state_eq:
  "scenarioC_state =
     \<lparr>content = replicate 130 (CHR ''a''), version = 130, pendingOps = [],
      history = map (\<lambda>i. clientOp ''k'' ''alice'' (int i + 1) [insertOp 0 ''a'']) [30..<130]\<rparr>"
  by code_simp


section \<open>Facts about the leave and join handlers\<close>








section \<open>Convergence of two concurrent operations\<close>

text \<open>
  C1, as amended. For a buffer and two operations \<open>opA\<close>, \<open>opB\<close> such that every insert
  among them has its position inside \<open>[0, len]\<close> and every delete has a non-negative
  position and a non-negative length (its range may reach or lie beyond the end of the
  buffer), applying \<open>opA\<close> and then \<open>opB\<close> transformed against \<open>opA\<close> yields
  the same string as applying \<open>opB\<close> and then \<open>opA\<close> transformed against \<open>opB\<close>, provided
  that the two are not inserts at the same position and that neither is an insert
  strictly inside the range the other deletes.
\<close>

theorem transform_convergence_in_range:
  assumes rA: "in_range str opA" and rB: "in_range str opB"
    and nc: "\<not> insert_conflict opA opB" "\<not> insert_conflict opB opA"
  shows "applyOperation (applyOperation str opA) (transformOperation opB opA)
       = applyOperation (applyOperation str opB) (transformOperation opA opB)"
proof -
  consider (pA) "type_op opA \<noteq> Insert" "type_op opA \<noteq> Delete"
    | (pB) "type_op opB \<noteq> Insert" "type_op opB \<noteq> Delete"
    | (ii) "type_op opA = Insert" "type_op opB = Insert"
    | (id) "type_op opA = Insert" "type_op opB = Delete"
    | (di) "type_op opA = Delete" "type_op opB = Insert"
    | (dd) "type_op opA = Delete" "type_op opB = Delete"
    by (cases "type_op opA"; cases "type_op opB") auto
  then show ?thesis
  proof cases
    case pA
    then show ?thesis by (rule conv_passive)
  next
    case pB
    then show ?thesis by (rule conv_passive[symmetric])
  next
    case ii
    then have "position opA < position opB \<or> position opB < position opA"
      using nc by (auto simp: insert_conflict_def)
    then show ?thesis
    proof
      assume "position opA < position opB"
      then show ?thesis using ii rA rB by (intro conv_ins_ins) (auto simp: in_range_def)
    next
      assume "position opB < position opA"
      then show ?thesis using ii rA rB
        by (intro conv_ins_ins[symmetric]) (auto simp: in_range_def)
    qed
  next
    case id
    then have "position opA \<le> position opB
        \<or> position opB < position opA \<and> position opB + length_or_zero opB \<le> position opA"
      using nc by (auto simp: insert_conflict_def)
    then consider "position opA \<le> position opB"
      | "position opB < position opA" "position opB + length_or_zero opB \<le> position opA"
      by blast
    then show ?thesis
    proof cases
      case 1
      then show ?thesis using id rA rB by (intro conv_ins_del_before) (auto simp: in_range_def)
    next
      case 2
      then show ?thesis using id rA rB by (intro conv_ins_del_after) (auto simp: in_range_def)
    qed
  next
    case di
    then have "position opB \<le> position opA
        \<or> position opA < position opB \<and> position opA + length_or_zero opA \<le> position opB"
      using nc by (auto simp: insert_conflict_def)
    then consider "position opB \<le> position opA"
      | "position opA < position opB" "position opA + length_or_zero opA \<le> position opB"
      by blast
    then show ?thesis
    proof cases
      case 1
      then show ?thesis using di rA rB
        by (intro conv_ins_del_before[symmetric]) (auto simp: in_range_def)
    next
      case 2
      then show ?thesis using di rA rB
        by (intro conv_ins_del_after[symmetric]) (auto simp: in_range_def)
    qed
  next
    case dd
    consider "position opA + length_or_zero opA \<le> position opB"
      | "position opB + length_or_zero opB \<le> position opA"
      | "position opB < position opA + length_or_zero opA"
        "position opA < position opB + length_or_zero opB"
      by linarith
    then show ?thesis
    proof cases
      case 1
      then show ?thesis using dd rA rB by (intro conv_del_del_disjoint) (auto simp: in_range_def)
    next
      case 2
      then show ?thesis using dd rA rB
        by (intro conv_del_del_disjoint[symmetric]) (auto simp: in_range_def)
    next
      case 3
      then show ?thesis using dd rA rB by (intro conv_del_del_overlap) (auto simp: in_range_def)
    qed
  qed
qed

text \<open>
  The amended statement on \<open>abc\<close>, at an insert of \<open>X\<close> at position 1 and a delete of
  five characters at position 2, which reaches beyond the end of the buffer: both orders
  end in \<open>aXb\<close>.
\<close>

theorem transform_convergence_in_range_witness:
  "in_range ''abc'' (insertOp 1 ''X'') \<and> in_range ''abc'' (deleteOp 2 5)
   \<and> \<not> insert_conflict (insertOp 1 ''X'') (deleteOp 2 5)
   \<and> \<not> insert_conflict (deleteOp 2 5) (insertOp 1 ''X'')
   \<and> applyOperation (applyOperation ''abc'' (insertOp 1 ''X''))
        (transformOperation (deleteOp 2 5) (insertOp 1 ''X'')) = ''aXb''
   \<and> applyOperation (applyOperation ''abc'' (deleteOp 2 5))
        (transformOperation (insertOp 1 ''X'') (deleteOp 2 5)) = ''aXb''"
proof -
  have a: "in_range ''abc'' (insertOp 1 ''X'')" by code_simp
  have b: "in_range ''abc'' (deleteOp 2 5)" by code_simp
  have c: "\<not> insert_conflict (insertOp 1 ''X'') (deleteOp 2 5)" by code_simp
  have d: "\<not> insert_conflict (deleteOp 2 5) (insertOp 1 ''X'')" by code_simp
  have e: "applyOperation (applyOperation ''abc'' (deleteOp 2 5))
        (transformOperation (insertOp 1 ''X'') (deleteOp 2 5)) = ''aXb''" by code_simp
  from transform_convergence_in_range[OF a b c d] a b c d e show ?thesis by simp
qed

text \<open>
  C1 as stated, for every content and every pair of operations, fails, and each
  restriction of the amended statement is forced by one of these pairs. On \<open>ab\<close>, two
  inserts at position 1 are each left unchanged by the transform (each is told it goes
  first), so the two orders end in \<open>aYXb\<close> and in \<open>aXYb\<close>. On \<open>abc\<close>: an insert at
  position 1 and a delete of \<open>[0, 2)\<close> end in \<open>c\<close> (the widened delete swallows the
  inserted text) and in \<open>Xc\<close>; inserts at positions 5 and 7, both beyond the end and
  clamped when applied, end in \<open>abcXY\<close> and in \<open>abcYX\<close>; inserts at positions \<open>-2\<close> and
  \<open>-1\<close> end in \<open>YXabc\<close> and in \<open>XYabc\<close>; a delete at position \<open>-1\<close> and an insert at 0
  end in \<open>Xababc\<close> and in \<open>XabXabc\<close>; a delete of length \<open>-1\<close> at position 1 and an insert
  at 1 end in \<open>aXabc\<close> and in \<open>aXXbc\<close>.
\<close>

theorem convergence_counterexample:
  "applyOperation (applyOperation ''ab'' (insertOp 1 ''X''))
       (transformOperation (insertOp 1 ''Y'') (insertOp 1 ''X'')) = ''aYXb''
   \<and> applyOperation (applyOperation ''ab'' (insertOp 1 ''Y''))
       (transformOperation (insertOp 1 ''X'') (insertOp 1 ''Y'')) = ''aXYb''
   \<and> applyOperation (applyOperation ''abc'' (insertOp 1 ''X''))
       (transformOperation (deleteOp 0 2) (insertOp 1 ''X'')) = ''c''
   \<and> applyOperation (applyOperation ''abc'' (deleteOp 0 2))
       (transformOperation (insertOp 1 ''X'') (deleteOp 0 2)) = ''Xc''
   \<and> applyOperation (applyOperation ''abc'' (insertOp 5 ''X''))
       (transformOperation (insertOp 7 ''Y'') (insertOp 5 ''X'')) = ''abcXY''
   \<and> applyOperation (applyOperation ''abc'' (insertOp 7 ''Y''))
       (transformOperation (insertOp 5 ''X'') (insertOp 7 ''Y'')) = ''abcYX''
   \<and> applyOperation (applyOperation ''abc'' (insertOp (- 2) ''X''))
       (transformOperation (insertOp (- 1) ''Y'') (insertOp (- 2) ''X'')) = ''YXabc''
   \<and> applyOperation (applyOperation ''abc'' (insertOp (- 1) ''Y''))
       (transformOperation (insertOp (- 2) ''X'') (insertOp (- 1) ''Y'')) = ''XYabc''
   \<and> applyOperation (applyOperation ''abc'' (deleteOp (- 1) 1))
       (transformOperation (insertOp 0 ''X'') (deleteOp (- 1) 1)) = ''Xababc''
   \<and> applyOperation (applyOperation ''abc'' (insertOp 0 ''X''))
       (transformOperation (deleteOp (- 1) 1) (insertOp 0 ''X'')) = ''XabXabc''
   \<and> applyOperation (applyOperation ''abc'' (deleteOp 1 (- 1)))
       (transformOperation (insertOp 1 ''X'') (deleteOp 1 (- 1))) = ''aXabc''
   \<and> applyOperation (applyOperation ''abc'' (insertOp 1 ''X''))
       (transformOperation (deleteOp 1 (- 1)) (insertOp 1 ''X'')) = ''aXXbc''"
  by code_simp


section \<open>Operations based on a version older than the history\<close>

text \<open>
  C2, as amended. A server document is in some state reached from its constructor by
  receiving operations. When an operation arrives whose base version predates the oldest
  retained history entry, it is not rejected: \<open>receiveOperation\<close> has no check of the
  base version against the history, and rejects only a base version above the current
  one. The operation is transformed against every retained entry of another author, in
  the order of the history, applied to the content, and the version advances by one.
\<close>

theorem stale_operation_is_applied:
  assumes st: "st = snd (receiveAll (new_ServerDocumentState c v) ops)"
    and ne: "history st \<noteq> []"
    and old: "version_doc docOp < version_doc (hd (history st))"
  shows "\<exists>r st'. receiveOperation st docOp = (Some r, st')
      \<and> operations (transformed r)
          = foldl transformDocumentOperation (operations docOp)
              (map operations (filter (\<lambda>h. userId h \<noteq> userId docOp) (history st)))
      \<and> newContent r = foldl applyOperation (content st) (operations (transformed r))
      \<and> content st' = newContent r
      \<and> newVersion r = version st + 1 \<and> version st' = version st + 1"
proof -
  have inv: "history_ordered st"
    unfolding st by (rule history_ordered_receiveAll) (rule history_ordered_new)
  have "hd (history st) \<in> set (history st)" using ne by simp
  then have "version_doc (hd (history st)) \<le> version st"
    using inv by (rule history_ordered_hd(2)[rotated])
  then have lt: "version_doc docOp < version st" using old by simp
  have "filter (\<lambda>h. version_doc docOp \<le> version_doc h \<and> userId h \<noteq> userId docOp) (history st)
      = filter (\<lambda>h. userId h \<noteq> userId docOp) (history st)"
  proof (rule filter_cong[OF refl])
    fix h assume "h \<in> set (history st)"
    then have "version_doc (hd (history st)) \<le> version_doc h"
      using inv by (rule history_ordered_hd(1)[rotated])
    then show "(version_doc docOp \<le> version_doc h \<and> userId h \<noteq> userId docOp)
        = (userId h \<noteq> userId docOp)" using old by auto
  qed
  then show ?thesis using receive_stale_general[OF lt] by simp
qed

text \<open>
  The amended statement at a document hydrated at version 10 that has accepted one
  operation (so the history holds version 11 alone), for an operation based on version 5.
\<close>

theorem stale_operation_is_applied_witness:
  "history (snd (receiveAll (new_ServerDocumentState ''abc'' 10) [clientOp ''op1'' ''client1'' 10 [insertOp 1 ''X'']])) \<noteq> []
   \<and> version_doc (clientOp ''op2'' ''client2'' 5 [insertOp 0 ''Y''])
       < version_doc (hd (history (snd (receiveAll (new_ServerDocumentState ''abc'' 10) [clientOp ''op1'' ''client1'' 10 [insertOp 1 ''X'']]))))
   \<and> content (snd (receiveOperation (snd (receiveAll (new_ServerDocumentState ''abc'' 10) [clientOp ''op1'' ''client1'' 10 [insertOp 1 ''X'']]))
        (clientOp ''op2'' ''client2'' 5 [insertOp 0 ''Y'']))) = ''YaXbc''
   \<and> version (snd (receiveOperation (snd (receiveAll (new_ServerDocumentState ''abc'' 10) [clientOp ''op1'' ''client1'' 10 [insertOp 1 ''X'']]))
        (clientOp ''op2'' ''client2'' 5 [insertOp 0 ''Y'']))) = 12"
proof -
  let ?st = "snd (receiveAll (new_ServerDocumentState ''abc'' 10) [clientOp ''op1'' ''client1'' 10 [insertOp 1 ''X'']])"
  let ?op = "clientOp ''op2'' ''client2'' 5 [insertOp 0 ''Y'']"
  have ne: "history ?st \<noteq> []" by code_simp
  have old: "version_doc ?op < version_doc (hd (history ?st))" by code_simp
  have c: "foldl applyOperation (content ?st)
      (foldl transformDocumentOperation (operations ?op)
         (map operations (filter (\<lambda>h. userId h \<noteq> userId ?op) (history ?st)))) = ''YaXbc''"
    by code_simp
  have v: "version ?st + 1 = 12" by code_simp
  from stale_operation_is_applied[OF refl ne old] c v
  show ?thesis using ne old by auto
qed

text \<open>
  C2 as stated fails on its own example: the server is at version 130, the history holds
  the versions 31 to 130, and an operation with base version 5 is accepted; the version
  becomes 131 and the inserted text is in the content.
\<close>

theorem stale_rejection_counterexample:
  "version scenarioC_state = 130
   \<and> version_doc (hd (history scenarioC_state)) = 31
   \<and> length (history scenarioC_state) = 100
   \<and> fst (receiveOperation scenarioC_state (clientOp ''z'' ''bob'' 5 [insertOp 0 ''b''])) \<noteq> None
   \<and> version (snd (receiveOperation scenarioC_state (clientOp ''z'' ''bob'' 5 [insertOp 0 ''b'']))) = 131
   \<and> content (snd (receiveOperation scenarioC_state (clientOp ''z'' ''bob'' 5 [insertOp 0 ''b''])))
       = ''b'' @ content scenarioC_state"
  unfolding scenarioC_state_eq by code_simp


section \<open>Operations based on an older version\<close>

text \<open>
  C3. An operation whose base version is below the current version is transformed against
  exactly the history entries whose version is at least its base version and whose author
  is another user, in the order of the history (oldest first), and the result is applied.
  From \<open>abc\<close> at version 0: the insert of \<open>X\<close> at position 1 by client 1 gives \<open>aXbc\<close> at
  version 1; the delete of one character at position 0 by client 2, also based on version 0,
  is left as it is by the transform and gives \<open>Xbc\<close> at version 2.

  In the editing session the document reaches \<open>ZBYXXabcdf\<close> at version 4 with the four
  operations in its history. For the late operation of bob, based on version 2, the
  entries selected are \<open>a2\<close> (version 2, the base version itself) and \<open>a3\<close> (version 4);
  \<open>a1\<close> (version 1) is older than the base and \<open>b1\<close> is bob's own. Against the three edits
  of the two selected entries, in order, its insert moves from position 5 to 7 and its
  delete of two characters at position 7 moves to position 9 and loses the character that
  \<open>a3\<close> has already deleted; the result is applied and gives \<open>ZBYXXab!cf\<close> at version 5.
\<close>

theorem missed_entries_transform:
  "(version_doc docOp < version st \<longrightarrow>
      (\<exists>r st'. receiveOperation st docOp = (Some r, st')
        \<and> operations (transformed r)
            = foldl transformDocumentOperation (operations docOp)
                (map operations
                   (filter (\<lambda>h. version_doc docOp \<le> version_doc h \<and> userId h \<noteq> userId docOp)
                      (history st)))
        \<and> newContent r = foldl applyOperation (content st) (operations (transformed r))
        \<and> content st' = newContent r
        \<and> newVersion r = version st + 1 \<and> version st' = version st + 1))
   \<and> fst (receiveAll (new_ServerDocumentState ''abc'' 0)
          [clientOp ''op1'' ''client1'' 0 [insertOp 1 ''X''],
           clientOp ''op2'' ''client2'' 0 [deleteOp 0 1]])
       = [Some \<lparr>transformed = clientOp ''op1'' ''client1'' 1 [insertOp 1 ''X''],
                newContent = ''aXbc'', newVersion = 1\<rparr>,
          Some \<lparr>transformed = clientOp ''op2'' ''client2'' 2 [deleteOp 0 1],
                newContent = ''Xbc'', newVersion = 2\<rparr>]
   \<and> content (snd (receiveAll (new_ServerDocumentState ''abc'' 0)
          [clientOp ''op1'' ''client1'' 0 [insertOp 1 ''X''],
           clientOp ''op2'' ''client2'' 0 [deleteOp 0 1]])) = ''Xbc''
   \<and> version (snd (receiveAll (new_ServerDocumentState ''abc'' 0)
          [clientOp ''op1'' ''client1'' 0 [insertOp 1 ''X''],
           clientOp ''op2'' ''client2'' 0 [deleteOp 0 1]])) = 2
   \<and> content (snd (receiveAll (new_ServerDocumentState ''abcdef'' 0) editSession))
       = ''ZBYXXabcdf''
   \<and> map id_doc (history (snd (receiveAll (new_ServerDocumentState ''abcdef'' 0) editSession)))
       = [''a1'', ''a2'', ''b1'', ''a3'']
   \<and> map id_doc
        (filter (\<lambda>h. version_doc lateOp \<le> version_doc h \<and> userId h \<noteq> userId lateOp)
           (history (snd (receiveAll (new_ServerDocumentState ''abcdef'' 0) editSession))))
       = [''a2'', ''a3'']
   \<and> fst (receiveOperation
            (snd (receiveAll (new_ServerDocumentState ''abcdef'' 0) editSession)) lateOp)
       = Some \<lparr>transformed = clientOp ''b2'' ''bob'' 5 [insertOp 7 ''!'', deleteOp 9 1],
               newContent = ''ZBYXXab!cf'', newVersion = 5\<rparr>"
proof (intro conjI impI)
  assume "version_doc docOp < version st"
  then show "\<exists>r st'. receiveOperation st docOp = (Some r, st')
        \<and> operations (transformed r)
            = foldl transformDocumentOperation (operations docOp)
                (map operations
                   (filter (\<lambda>h. version_doc docOp \<le> version_doc h \<and> userId h \<noteq> userId docOp)
                      (history st)))
        \<and> newContent r = foldl applyOperation (content st) (operations (transformed r))
        \<and> content st' = newContent r
        \<and> newVersion r = version st + 1 \<and> version st' = version st + 1"
    by (rule receive_stale_general)
qed code_simp+

text \<open>
  The general part at the late operation of bob, in the state the editing session
  leaves.
\<close>

theorem missed_entries_transform_witness:
  "version_doc lateOp
     < version (snd (receiveAll (new_ServerDocumentState ''abcdef'' 0) editSession))
   \<and> (\<exists>r st'. receiveOperation
           (snd (receiveAll (new_ServerDocumentState ''abcdef'' 0) editSession)) lateOp
           = (Some r, st')
         \<and> operations (transformed r) = [insertOp 7 ''!'', deleteOp 9 1]
         \<and> content st' = ''ZBYXXab!cf'' \<and> version st' = 5)"
proof -
  let ?st = "snd (receiveAll (new_ServerDocumentState ''abcdef'' 0) editSession)"
  have h: "version_doc lateOp < version ?st" by code_simp
  have t: "foldl transformDocumentOperation (operations lateOp)
      (map operations (filter (\<lambda>h. version_doc lateOp \<le> version_doc h \<and> userId h \<noteq> userId lateOp)
         (history ?st))) = [insertOp 7 ''!'', deleteOp 9 1]" by code_simp
  have c: "foldl applyOperation (content ?st) [insertOp 7 ''!'', deleteOp 9 1] = ''ZBYXXab!cf''"
    by code_simp
  have v: "version ?st + 1 = 5" by code_simp
  from missed_entries_transform[of lateOp ?st, THEN conjunct1, rule_format, OF h]
  obtain r st' where "receiveOperation ?st lateOp = (Some r, st')"
    "operations (transformed r) = [insertOp 7 ''!'', deleteOp 9 1]"
    "content st' = ''ZBYXXab!cf''" "version st' = 5"
    unfolding t using c v by auto
  then show ?thesis using h by blast
qed


section \<open>Operations based on a future version\<close>

text \<open>
  C4. An operation whose base version is above the current version is rejected: the
  result is \<^verbatim>\<open>null\<close> and the state (content, version, history) is the state before the
  call.
\<close>

theorem future_version_rejected:
  "version st < version_doc docOp \<Longrightarrow> receiveOperation st docOp = (None, st)"
  by (simp add: receiveOperation_def)

text \<open>
  A document at version 3 receiving an operation based on version 7.
\<close>

theorem future_version_rejected_witness:
  "version (new_ServerDocumentState ''abc'' 3) < version_doc (clientOp ''op1'' ''client1'' 7 [insertOp 0 ''X''])
   \<and> receiveOperation (new_ServerDocumentState ''abc'' 3) (clientOp ''op1'' ''client1'' 7 [insertOp 0 ''X''])
       = (None, new_ServerDocumentState ''abc'' 3)"
proof -
  have h: "version (new_ServerDocumentState ''abc'' 3)
      < version_doc (clientOp ''op1'' ''client1'' 7 [insertOp 0 ''X''])" by code_simp
  from future_version_rejected[OF h] h show ?thesis by simp
qed


section \<open>Version numbers\<close>

text \<open>
  C5. A document starts at the version given to its constructor. One call either rejects
  and leaves the state as it is, or accepts and returns the version before the call plus
  one, which is also the new version of the document and the stamp on the canonical
  operation. Over any sequence of calls from any state, the versions returned for the
  accepted operations are the successive integers after the starting version, and the
  final version is the starting version plus the number of accepted operations.
\<close>

theorem version_increases_by_one:
  "version (new_ServerDocumentState c v) = v
   \<and> (case receiveOperation st docOp of
        (None, st') \<Rightarrow> st' = st
      | (Some r, st') \<Rightarrow> newVersion r = version st + 1 \<and> version st' = version st + 1
                         \<and> version_doc (transformed r) = version st + 1)
   \<and> map newVersion (accepted (fst (receiveAll st ops)))
       = map (\<lambda>i. version st + 1 + int i) [0..<length (accepted (fst (receiveAll st ops)))]
   \<and> version (snd (receiveAll st ops))
       = version st + int (length (accepted (fst (receiveAll st ops))))"
  using receive_version_step[of st docOp] receiveAll_versions[of st ops]
  by (simp add: new_ServerDocumentState_def)

text \<open>
  A document at version 7 receiving an operation based on version 7, one based on
  version 9 (rejected) and one based on version 7 again: the accepted two return the
  versions 8 and 9.
\<close>

theorem version_increases_by_one_witness:
  "map newVersion (accepted (fst (receiveAll (new_ServerDocumentState ''abc'' 7)
      [clientOp ''op1'' ''client1'' 7 [insertOp 0 ''X''],
       clientOp ''op2'' ''client2'' 9 [insertOp 0 ''Y''],
       clientOp ''op3'' ''client2'' 7 [insertOp 0 ''Z'']]))) = [8, 9]"
proof -
  let ?st = "new_ServerDocumentState ''abc'' 7"
  let ?ops = "[clientOp ''op1'' ''client1'' 7 [insertOp 0 ''X''],
       clientOp ''op2'' ''client2'' 9 [insertOp 0 ''Y''],
       clientOp ''op3'' ''client2'' 7 [insertOp 0 ''Z'']]"
  have l: "length (accepted (fst (receiveAll ?st ?ops))) = 2" by code_simp
  have v: "version ?st = 7" by code_simp
  have "map newVersion (accepted (fst (receiveAll ?st ?ops)))
      = map (\<lambda>i. version ?st + 1 + int i) [0..<length (accepted (fst (receiveAll ?st ?ops)))]"
    by (rule version_increases_by_one[THEN conjunct2, THEN conjunct2, THEN conjunct1])
  also have "\<dots> = map (\<lambda>i. 7 + 1 + int i) [0..<2]" unfolding l v ..
  also have "\<dots> = [8, 9]" by code_simp
  finally show ?thesis .
qed


section \<open>Bounded history\<close>

text \<open>
  C6. For a document created by its constructor and any sequence of operations it then
  receives, the history is the list of the accepted operations in their canonical
  (transformed, stamped) form, in order of acceptance, without all but its last 100
  entries: its length is the smaller of the number of accepted operations and 100, so it
  is exactly 100 after more than 100 acceptances and holds every accepted operation up to
  then.
\<close>

theorem history_keeps_last_100:
  "history (snd (receiveAll (new_ServerDocumentState c v) ops))
     = drop (length (accepted (fst (receiveAll (new_ServerDocumentState c v) ops))) - 100)
         (map transformed (accepted (fst (receiveAll (new_ServerDocumentState c v) ops))))
   \<and> length (history (snd (receiveAll (new_ServerDocumentState c v) ops)))
     = min (length (accepted (fst (receiveAll (new_ServerDocumentState c v) ops)))) 100"
proof -
  have "length (history (new_ServerDocumentState c v)) \<le> 100"
    by (simp add: new_ServerDocumentState_def)
  from receiveAll_history[OF this, of ops]
  have "history (snd (receiveAll (new_ServerDocumentState c v) ops))
     = drop (length (accepted (fst (receiveAll (new_ServerDocumentState c v) ops))) - 100)
         (map transformed (accepted (fst (receiveAll (new_ServerDocumentState c v) ops))))"
    by (simp add: new_ServerDocumentState_def)
  then show ?thesis by simp
qed

text \<open>
  After 130 accepted keystrokes the history has exactly 100 entries.
\<close>

theorem history_keeps_last_100_witness:
  "length (accepted (fst (receiveAll (new_ServerDocumentState [] 0) (typing 130)))) = 130
   \<and> length (history (snd (receiveAll (new_ServerDocumentState [] 0) (typing 130)))) = 100"
proof -
  let ?run = "receiveAll (new_ServerDocumentState [] 0) (typing 130)"
  have "version (snd ?run) = 130"
    using scenarioC_state_eq unfolding scenarioC_state_def by simp
  moreover have "version (snd ?run)
      = version (new_ServerDocumentState [] 0) + int (length (accepted (fst ?run)))"
    by (rule receiveAll_versions[THEN conjunct2])
  moreover have "version (new_ServerDocumentState [] 0) = 0"
    by (simp add: new_ServerDocumentState_def)
  ultimately have n: "length (accepted (fst ?run)) = 130" by simp
  have "length (history (snd ?run)) = min (length (accepted (fst ?run))) 100"
    by (rule history_keeps_last_100[THEN conjunct2])
  then show ?thesis unfolding n by simp
qed


section \<open>Clamping in \<open>applyOperation\<close>\<close>

text \<open>
  C7. The insert branch of \<open>applyOperation\<close> clamps every position into \<open>[0, len]\<close>, and
  the delete branch removes the range from the position to the clipped end when position
  and length are non-negative. The delete branch does not clamp a negative position: it
  reaches \<^verbatim>\<open>slice\<close> as an index counted from the end. Deleting one character at
  position \<open>-1\<close> of \<open>abc\<close> removes nothing and returns \<open>ababc\<close>, a string longer than the
  buffer.
\<close>

theorem delete_negative_position_duplicates:
  "applyOperation ''abc'' (deleteOp (- 1) 1) = ''ababc''"
  by code_simp

text \<open>
  A negative length is not truncated either: the end of the range then lies before its
  start, and the characters between the two are kept twice.
\<close>

lemma delete_negative_length_duplicates:
  "applyOperation ''abc'' (deleteOp 2 (- 1)) = ''abbc''"
  by code_simp


section \<open>A delete against an overlapping delete\<close>

text \<open>
  C8. When the ranges of two deletes overlap, transforming \<open>opA\<close> against \<open>opB\<close> subtracts
  the length of the overlap from the length of \<open>opA\<close> and moves its start to the smaller of
  the two positions; when the remaining length is not positive the result is the retain
  operation of length 0 at position 0, which leaves every buffer as it is. The delete of
  5 characters at position 2 against the delete of 5 characters at position 0 has an
  overlap of 3 and becomes the delete of 2 characters at position 0.
\<close>

theorem overlapping_deletes:
  "(type_op opA = Delete \<and> type_op opB = Delete \<and> ranges_overlap opA opB \<longrightarrow>
      transformOperation opA opB =
        (if length_or_zero opA - overlapLength opA opB \<le> 0 then retain_noop
         else opA\<lparr>position := min (position opA) (position opB),
                  length_op := Some (length_or_zero opA - overlapLength opA opB)\<rparr>))
   \<and> applyOperation str retain_noop = str
   \<and> overlapLength (deleteOp 2 5) (deleteOp 0 5) = 3
   \<and> transformOperation (deleteOp 2 5) (deleteOp 0 5) = deleteOp 0 2"
proof (intro conjI impI)
  show "overlapLength (deleteOp 2 5) (deleteOp 0 5) = 3" by code_simp
  show "transformOperation (deleteOp 2 5) (deleteOp 0 5) = deleteOp 0 2" by code_simp
qed (auto simp: transform_del_del_overlap apply_retain_noop)

text \<open>
  The general part at a delete of the range \<open>[3, 5)\<close> against a delete of \<open>[1, 7)\<close>, which
  covers it.
\<close>

theorem overlapping_deletes_witness:
  "type_op (deleteOp 3 2) = Delete \<and> type_op (deleteOp 1 6) = Delete
   \<and> ranges_overlap (deleteOp 3 2) (deleteOp 1 6)
   \<and> transformOperation (deleteOp 3 2) (deleteOp 1 6) = retain_noop"
proof -
  have h: "type_op (deleteOp 3 2) = Delete \<and> type_op (deleteOp 1 6) = Delete
    \<and> ranges_overlap (deleteOp 3 2) (deleteOp 1 6)" by code_simp
  have z: "length_or_zero (deleteOp 3 2) - overlapLength (deleteOp 3 2) (deleteOp 1 6) \<le> 0"
    by code_simp
  from overlapping_deletes[of "deleteOp 3 2" "deleteOp 1 6", THEN conjunct1, rule_format, OF h] z h
  show ?thesis by simp
qed


section \<open>The last participant leaves\<close>





section \<open>Operations that change nothing\<close>

text \<open>
  C10. \<open>applyOperation\<close> has a result for every buffer and every operation; no branch of
  it throws. An operation of type retain, an operation of an unrecognized type, an insert
  without text and a delete without length each return the buffer unchanged, whatever the
  other fields hold. A delete whose range overlaps that of another delete and is used up
  by the overlap is transformed into a retain, and applying the transformed operation
  returns the buffer unchanged.
\<close>

theorem applyOperation_noops:
  "applyOperation s (op\<lparr>type_op := Retain\<rparr>) = s
   \<and> applyOperation s (op\<lparr>type_op := Unrecognized\<rparr>) = s
   \<and> applyOperation s (op\<lparr>type_op := Insert, text_op := None\<rparr>) = s
   \<and> applyOperation s (op\<lparr>type_op := Delete, length_op := None\<rparr>) = s
   \<and> (type_op opA = Delete \<and> type_op opB = Delete \<and> ranges_overlap opA opB
        \<and> length_or_zero opA - overlapLength opA opB \<le> 0 \<longrightarrow>
          type_op (transformOperation opA opB) = Retain
          \<and> applyOperation s (transformOperation opA opB) = s)"
  by (auto simp: apply_delete_absent_length apply_insert_absent_text transform_del_del_overlap
      apply_retain_noop) (auto simp: applyOperation_def retain_noop_def)

text \<open>
  The last part at a delete of \<open>[3, 5)\<close> against a delete of \<open>[1, 7)\<close> on a buffer of ten
  digits.
\<close>

theorem applyOperation_noops_witness:
  "type_op (deleteOp 3 2) = Delete \<and> type_op (deleteOp 1 6) = Delete
   \<and> ranges_overlap (deleteOp 3 2) (deleteOp 1 6)
   \<and> length_or_zero (deleteOp 3 2) - overlapLength (deleteOp 3 2) (deleteOp 1 6) \<le> 0
   \<and> applyOperation ''0123456789'' (transformOperation (deleteOp 3 2) (deleteOp 1 6)) = ''0123456789''"
proof -
  have h: "type_op (deleteOp 3 2) = Delete \<and> type_op (deleteOp 1 6) = Delete
    \<and> ranges_overlap (deleteOp 3 2) (deleteOp 1 6)
    \<and> length_or_zero (deleteOp 3 2) - overlapLength (deleteOp 3 2) (deleteOp 1 6) \<le> 0"
    by code_simp
  from applyOperation_noops[where s = "''0123456789''" and opA = "deleteOp 3 2"
      and opB = "deleteOp 1 6",
      THEN conjunct2, THEN conjunct2, THEN conjunct2, THEN conjunct2, rule_format, OF h] h
  show ?thesis by simp
qed

end
